theory Spec2Isabelle
  imports Main
begin

section \<open>The line buffer (\<^verbatim>\<open>better_prompt.js\<close>)\<close>

text \<open>
  JavaScript strings are modelled as \<^typ>\<open>string\<close>: a list of 8-bit characters holding the
  UTF-8 encoding of the text. Every character the program inspects (colon, newline, the
  base64 alphabet, the characters JSON escapes) is ASCII, so splitting and escaping agree
  with the UTF-16 view of the source, and \<open>Buffer.from(value, 'utf-8')\<close> is the identity on
  this representation.

  A promise is an identifier; the store \<open>promises\<close> maps a settled promise to its outcome and
  a pending one to \<open>None\<close>. The promise returned by \<open>getNextLine\<close> when it has to wait is
  resolved with the inner promise whose resolver is kept in \<open>this.resolve\<close>, so it settles
  exactly when that resolver is called: one identifier stands for both.
\<close>

datatype outcome = Fulfilled string | Rejected string

text \<open>
  The fields of a \<open>BetterPrompt\<close> instance. The constructor assigns \<open>linesQueue\<close> and
  \<open>resolve\<close>; \<open>listenerResolve\<close> is the property that \<open>getNextLine\<close> tests, which no method
  of the class assigns (reading it yields \<open>undefined\<close>). \<open>shownPrompts\<close> records the calls
  \<open>setPrompt(prompt); prompt(true)\<close> on the readline interface and \<open>closed\<close> the call of
  \<open>close()\<close>.
\<close>

record BetterPrompt =
  linesQueue :: "string list"
  resolve :: "nat option"
  listenerResolve :: "nat option"
  promises :: "nat \<Rightarrow> outcome option"
  nextPromise :: nat
  shownPrompts :: "string list"
  closed :: bool

definition newBetterPrompt :: BetterPrompt where
  "newBetterPrompt =
     \<lparr>linesQueue = [], resolve = None, listenerResolve = None,
      promises = (\<lambda>_. None), nextPromise = 0, shownPrompts = [], closed = False\<rparr>"

text \<open>Calling the resolver of a promise: a promise that is already settled stays as it is.\<close>

definition settle :: "nat \<Rightarrow> outcome \<Rightarrow> (nat \<Rightarrow> outcome option) \<Rightarrow> (nat \<Rightarrow> outcome option)" where
  "settle p v ps = (case ps p of None \<Rightarrow> ps(p \<mapsto> v) | Some _ \<Rightarrow> ps)"

definition handleLine :: "string \<Rightarrow> BetterPrompt \<Rightarrow> BetterPrompt" where
  "handleLine line s =
     (case resolve s of
        Some toResolve \<Rightarrow>
          s\<lparr>resolve := None, promises := settle toResolve (Fulfilled line) (promises s)\<rparr>
      | None \<Rightarrow> s\<lparr>linesQueue := linesQueue s @ [line]\<rparr>)"

definition getNextLine :: "string \<Rightarrow> BetterPrompt \<Rightarrow> nat \<times> BetterPrompt" where
  "getNextLine prompt s =
     (let p = nextPromise s; s0 = s\<lparr>nextPromise := Suc p\<rparr> in
      if listenerResolve s \<noteq> None then
        (p, s0\<lparr>promises := settle p
                 (Rejected ''getNextLine called without waiting for result from previous call'')
                 (promises s0)\<rparr>)
      else
        let s1 = s0\<lparr>shownPrompts := shownPrompts s0 @ [prompt]\<rparr> in
        (case linesQueue s1 of
           line # rest \<Rightarrow>
             (p, s1\<lparr>linesQueue := rest, promises := settle p (Fulfilled line) (promises s1)\<rparr>)
         | [] \<Rightarrow> (p, s1\<lparr>resolve := Some p\<rparr>)))"

definition close :: "BetterPrompt \<Rightarrow> BetterPrompt" where
  "close s = s\<lparr>closed := True\<rparr>"

text \<open>Sequences of the two operations, as the line source and a caller may interleave them.\<close>

datatype prompt_op = HandleLine string | GetNextLine string

fun step :: "BetterPrompt \<Rightarrow> prompt_op \<Rightarrow> BetterPrompt" where
  "step s (HandleLine line) = handleLine line s"
| "step s (GetNextLine prompt) = snd (getNextLine prompt s)"

definition run :: "prompt_op list \<Rightarrow> BetterPrompt" where
  "run ops = foldl step newBetterPrompt ops"

text \<open>Lines delivered by the line source, one \<open>line\<close> event each.\<close>

definition deliver :: "string list \<Rightarrow> BetterPrompt \<Rightarrow> BetterPrompt" where
  "deliver ls s = foldl (\<lambda>s line. handleLine line s) s ls"

text \<open>
  \<open>n\<close> successive calls of \<open>getNextLine\<close>, with the outcome of each returned promise read
  right after the call (\<open>None\<close>: still pending, the caller is suspended).
\<close>

fun requestLines :: "string list \<Rightarrow> BetterPrompt \<Rightarrow> outcome option list \<times> BetterPrompt" where
  "requestLines [] s = ([], s)"
| "requestLines (prompt # rest) s =
     (let (p, s1) = getNextLine prompt s;
          (rs, s2) = requestLines rest s1
      in (promises s1 p # rs, s2))"

section \<open>Platform functions used by \<^verbatim>\<open>commands.js\<close>\<close>

abbreviation nl :: char where
  "nl \<equiv> CHR 0x0A"

subsection \<open>Strings\<close>

text \<open>\<open>String.prototype.split('\n')\<close>: the pieces between newlines; never an empty array.\<close>

fun split_nl :: "string \<Rightarrow> string list" where
  "split_nl [] = [[]]"
| "split_nl (c # cs) =
     (if c = nl then [] # split_nl cs
      else (case split_nl cs of piece # pieces \<Rightarrow> (c # piece) # pieces | [] \<Rightarrow> [[c]]))"

text \<open>\<open>indexOf\<close> of a character: its first position, or \<open>-1\<close>.\<close>

fun indexOf :: "string \<Rightarrow> char \<Rightarrow> int" where
  "indexOf [] ch = -1"
| "indexOf (c # cs) ch =
     (if c = ch then 0 else (let i = indexOf cs ch in if i < 0 then -1 else i + 1))"

text \<open>
  \<open>String.prototype.substring(start, end)\<close>: both indices are clamped to the string, and
  swapped when \<open>start > end\<close>; a missing \<open>end\<close> is the length.
\<close>

definition substring :: "string \<Rightarrow> int \<Rightarrow> int option \<Rightarrow> string" where
  "substring s start end' =
     (let len = int (length s);
          a = min (max start 0) len;
          b = (case end' of None \<Rightarrow> len | Some e \<Rightarrow> min (max e 0) len);
          lo = min a b; hi = max a b
      in take (nat (hi - lo)) (drop (nat lo) s))"

subsection \<open>Base64 in \<open>Buffer\<close>\<close>

text \<open>
  \<open>Buffer.from(s, 'base64')\<close> and \<open>buf.toString('base64')\<close> belong to the Node.js runtime.
  The encoder is RFC 4648 base64 with padding; in \<open>setSecret\<close> its argument is the
  UTF-8 encoding of a string, \<open>Buffer.from(value, 'utf-8')\<close>, so \<open>base64_encode\<close> stands for
  the program on well-formed UTF-8 only. The decoder is the lenient one the comment in
  \<open>setSecret\<close> refers to: it accepts the standard and the URL-safe alphabet, skips every
  other character, stops at the first \<open>=\<close>, and drops the bits of an incomplete final byte.
  A byte is a \<^typ>\<open>char\<close>; arithmetic on it goes through \<^const>\<open>of_char\<close> and
  \<^const>\<open>char_of\<close>.
\<close>

definition b64char :: "nat \<Rightarrow> char" where
  "b64char n =
     (if n < 26 then char_of (n + 65)
      else if n < 52 then char_of (n + 71)
      else if n < 62 then char_of (n - 4)
      else if n = 62 then CHR ''+'' else CHR ''/'')"

fun encode_groups :: "nat list \<Rightarrow> string" where
  "encode_groups (x # y # z # rest) =
     [b64char (x div 4), b64char ((x mod 4) * 16 + y div 16),
      b64char ((y mod 16) * 4 + z div 64), b64char (z mod 64)] @ encode_groups rest"
| "encode_groups [x, y] =
     [b64char (x div 4), b64char ((x mod 4) * 16 + y div 16), b64char ((y mod 16) * 4),
      CHR ''='']"
| "encode_groups [x] = [b64char (x div 4), b64char ((x mod 4) * 16), CHR ''='', CHR ''='']"
| "encode_groups [] = []"

definition base64_encode :: "string \<Rightarrow> string" where
  "base64_encode bytes = encode_groups (map of_char bytes)"

definition unbase64 :: "char \<Rightarrow> nat option" where
  "unbase64 c =
     (let n = (of_char c :: nat) in
      if 65 \<le> n \<and> n \<le> 90 then Some (n - 65)
      else if 97 \<le> n \<and> n \<le> 122 then Some (n - 71)
      else if 48 \<le> n \<and> n \<le> 57 then Some (n + 4)
      else if c = CHR ''+'' \<or> c = CHR ''-'' then Some 62
      else if c = CHR ''/'' \<or> c = CHR ''_'' then Some 63
      else None)"

fun sextets :: "string \<Rightarrow> nat list" where
  "sextets [] = []"
| "sextets (c # cs) =
     (case unbase64 c of
        Some v \<Rightarrow> v # sextets cs
      | None \<Rightarrow> if c = CHR ''='' then [] else sextets cs)"

fun pack :: "nat list \<Rightarrow> nat list" where
  "pack (a # b # c # d # rest) =
     [a * 4 + b div 16, (b mod 16) * 16 + c div 4, (c mod 4) * 64 + d] @ pack rest"
| "pack [a, b, c] = [a * 4 + b div 16, (b mod 16) * 16 + c div 4]"
| "pack [a, b] = [a * 4 + b div 16]"
| "pack [a] = []"
| "pack [] = []"

text \<open>
  A string is held as its UTF-8 encoding, while the decoder reads the UTF-16 code units of
  the string and looks at the low byte of each. \<open>utf8_scan\<close> reads the scalar values back
  from the bytes (RFC 3629: shortest form only, no surrogates, nothing above \<open>U+10FFFF\<close>);
  a byte that starts no well-formed sequence gives \<open>None\<close>. The encoding of a string has no
  such byte; where one occurs it stands for \<open>U+FFFD\<close>, the character a UTF-8 decoder puts
  in its place.
\<close>

definition continuation :: "nat \<Rightarrow> bool" where
  "continuation b = (0x80 \<le> b \<and> b \<le> 0xBF)"

definition second_of_three :: "nat \<Rightarrow> nat \<Rightarrow> bool" where
  "second_of_three b b2 =
     (if b = 0xE0 then 0xA0 \<le> b2 \<and> b2 \<le> 0xBF
      else if b = 0xED then 0x80 \<le> b2 \<and> b2 \<le> 0x9F
      else continuation b2)"

definition second_of_four :: "nat \<Rightarrow> nat \<Rightarrow> bool" where
  "second_of_four b b2 =
     (if b = 0xF0 then 0x90 \<le> b2 \<and> b2 \<le> 0xBF
      else if b = 0xF4 then 0x80 \<le> b2 \<and> b2 \<le> 0x8F
      else continuation b2)"

fun utf8_scan :: "string \<Rightarrow> nat option list" where
  "utf8_scan [] = []"
| "utf8_scan [c] = [if (of_char c :: nat) < 0x80 then Some (of_char c) else None]"
| "utf8_scan [c, c2] =
     (let b = (of_char c :: nat); b2 = (of_char c2 :: nat) in
      if b < 0x80 then Some b # utf8_scan [c2]
      else if 0xC2 \<le> b \<and> b \<le> 0xDF \<and> continuation b2
      then [Some ((b mod 32) * 64 + b2 mod 64)]
      else None # utf8_scan [c2])"
| "utf8_scan [c, c2, c3] =
     (let b = (of_char c :: nat); b2 = (of_char c2 :: nat); b3 = (of_char c3 :: nat) in
      if b < 0x80 then Some b # utf8_scan [c2, c3]
      else if 0xC2 \<le> b \<and> b \<le> 0xDF \<and> continuation b2
      then Some ((b mod 32) * 64 + b2 mod 64) # utf8_scan [c3]
      else if 0xE0 \<le> b \<and> b \<le> 0xEF \<and> second_of_three b b2 \<and> continuation b3
      then [Some ((b mod 16) * 4096 + (b2 mod 64) * 64 + b3 mod 64)]
      else None # utf8_scan [c2, c3])"
| "utf8_scan (c # c2 # c3 # c4 # cs) =
     (let b = (of_char c :: nat); b2 = (of_char c2 :: nat); b3 = (of_char c3 :: nat);
          b4 = (of_char c4 :: nat) in
      if b < 0x80 then Some b # utf8_scan (c2 # c3 # c4 # cs)
      else if 0xC2 \<le> b \<and> b \<le> 0xDF \<and> continuation b2
      then Some ((b mod 32) * 64 + b2 mod 64) # utf8_scan (c3 # c4 # cs)
      else if 0xE0 \<le> b \<and> b \<le> 0xEF \<and> second_of_three b b2 \<and> continuation b3
      then Some ((b mod 16) * 4096 + (b2 mod 64) * 64 + b3 mod 64) # utf8_scan (c4 # cs)
      else if 0xF0 \<le> b \<and> b \<le> 0xF4 \<and> second_of_four b b2 \<and> continuation b3 \<and> continuation b4
      then Some ((b mod 8) * 262144 + (b2 mod 64) * 4096 + (b3 mod 64) * 64 + b4 mod 64) #
           utf8_scan cs
      else None # utf8_scan (c2 # c3 # c4 # cs))"

definition well_formed_utf8 :: "string \<Rightarrow> bool" where
  "well_formed_utf8 s = list_all (\<lambda>u. u \<noteq> None) (utf8_scan s)"

text \<open>
  The low bytes of the UTF-16 code units: one unit for a scalar value below \<open>0x10000\<close>, a
  surrogate pair above. \<^const>\<open>char_of\<close> keeps the low byte of its argument.
\<close>

fun unit_low_bytes :: "nat option \<Rightarrow> string" where
  "unit_low_bytes None = [char_of (0xFFFD :: nat)]"
| "unit_low_bytes (Some cp) =
     (if cp < 0x10000 then [char_of cp]
      else [char_of (0xD800 + (cp - 0x10000) div 1024), char_of (0xDC00 + (cp - 0x10000) mod 1024)])"

definition low_bytes :: "string \<Rightarrow> string" where
  "low_bytes s = concat (map unit_low_bytes (utf8_scan s))"

definition base64_decode :: "string \<Rightarrow> string" where
  "base64_decode s = map char_of (pack (sextets (low_bytes s)))"

text \<open>
  The words of the specification, not of the source: a \<^emph>\<open>valid base64 string\<close> is made of
  groups of four characters of the standard alphabet, the last group possibly padded with
  one or two \<open>=\<close>. It is \<^emph>\<open>canonical\<close> (RFC 4648, section 3.5) when the bits of the last
  character that belong to no byte are zero.
\<close>

definition is_std :: "char \<Rightarrow> bool" where
  "is_std c = (unbase64 c \<noteq> None \<and> c \<noteq> CHR ''-'' \<and> c \<noteq> CHR ''_'')"

definition final_group_valid :: "char \<Rightarrow> char \<Rightarrow> char \<Rightarrow> char \<Rightarrow> bool" where
  "final_group_valid a b c d =
     (is_std a \<and> is_std b \<and>
      (if c = CHR ''='' then d = CHR ''='' else is_std c \<and> (d = CHR ''='' \<or> is_std d)))"

fun valid_base64 :: "string \<Rightarrow> bool" where
  "valid_base64 [] = True"
| "valid_base64 (a # b # c # d # rest) =
     (if rest = [] then final_group_valid a b c d
      else is_std a \<and> is_std b \<and> is_std c \<and> is_std d \<and> valid_base64 rest)"
| "valid_base64 _ = False"

definition final_group_canonical :: "char \<Rightarrow> char \<Rightarrow> char \<Rightarrow> char \<Rightarrow> bool" where
  "final_group_canonical a b c d =
     (is_std a \<and> is_std b \<and>
      (if c = CHR ''='' then
         d = CHR ''='' \<and> (case unbase64 b of Some v \<Rightarrow> v mod 16 = 0 | None \<Rightarrow> False)
       else is_std c \<and>
            (if d = CHR ''='' then (case unbase64 c of Some v \<Rightarrow> v mod 4 = 0 | None \<Rightarrow> False)
             else is_std d)))"

fun canonical_base64 :: "string \<Rightarrow> bool" where
  "canonical_base64 [] = True"
| "canonical_base64 (a # b # c # d # rest) =
     (if rest = [] then final_group_canonical a b c d
      else is_std a \<and> is_std b \<and> is_std c \<and> is_std d \<and> canonical_base64 rest)"
| "canonical_base64 _ = False"

subsection \<open>\<open>Map\<close>, plain objects and \<open>JSON.stringify\<close>\<close>

text \<open>
  A \<open>Map\<close> keeps its entries in insertion order; \<open>set\<close> on a key it holds replaces the
  value where the entry is. \<open>new Map(entries)\<close> sets the entries one after the other.
\<close>

type_synonym ('k, 'v) Map = "('k \<times> 'v) list"

fun Map_set :: "'k \<Rightarrow> 'v \<Rightarrow> ('k, 'v) Map \<Rightarrow> ('k, 'v) Map" where
  "Map_set k v [] = [(k, v)]"
| "Map_set k v ((k', v') # m) = (if k' = k then (k, v) # m else (k', v') # Map_set k v m)"

fun Map_get :: "('k, 'v) Map \<Rightarrow> 'k \<Rightarrow> 'v option" where
  "Map_get [] k = None"
| "Map_get ((k', v') # m) k = (if k' = k then Some v' else Map_get m k)"

definition new_Map :: "('k \<times> 'v) list \<Rightarrow> ('k, 'v) Map" where
  "new_Map entries = foldl (\<lambda>m (k, v). Map_set k v m) [] entries"

text \<open>
  The object \<open>secret.data\<close>: own properties with string values, in creation order.
  Assigning a string to the key \<open>__proto__\<close> goes to the accessor of \<open>Object.prototype\<close>,
  which ignores a value that is no object: no own property appears. The own keys are
  enumerated with the array indices first (canonical decimal numerals below \<open>2^32 - 1\<close>), in
  ascending numeric order, then the other keys in creation order.
\<close>

definition obj_assign :: "string \<Rightarrow> string \<Rightarrow> (string \<times> string) list \<Rightarrow> (string \<times> string) list" where
  "obj_assign key v obj = (if key = ''__proto__'' then obj else Map_set key v obj)"

definition is_digit :: "char \<Rightarrow> bool" where
  "is_digit c = (48 \<le> (of_char c :: nat) \<and> (of_char c :: nat) \<le> 57)"

definition decimal :: "string \<Rightarrow> nat" where
  "decimal ds = foldl (\<lambda>n c. 10 * n + (of_char c - 48)) 0 ds"

definition is_array_index :: "string \<Rightarrow> bool" where
  "is_array_index k =
     (case k of
        [] \<Rightarrow> False
      | c # cs \<Rightarrow> list_all is_digit k \<and> (c \<noteq> CHR ''0'' \<or> cs = []) \<and>
                 decimal k < 2 ^ 32 - 1)"

definition own_properties :: "(string \<times> string) list \<Rightarrow> (string \<times> string) list" where
  "own_properties obj =
     sort_key (\<lambda>(k, v). decimal k) (filter (\<lambda>(k, v). is_array_index k) obj) @
     filter (\<lambda>(k, v). \<not> is_array_index k) obj"

text \<open>
  \<open>JSON.stringify\<close> of a string: quotation mark and backslash are escaped, control
  characters below \<open>0x20\<close> get their short escape or \<open>\u00XX\<close> in lower-case hexadecimal;
  every other byte is copied.
\<close>

definition hex_digit :: "nat \<Rightarrow> char" where
  "hex_digit n = (if n < 10 then char_of (n + 48) else char_of (n + 87))"

definition JSON_escape :: "char \<Rightarrow> string" where
  "JSON_escape c =
     (let n = (of_char c :: nat) in
      if n = 0x22 then [CHR 0x5C, CHR 0x22]
      else if n = 0x5C then [CHR 0x5C, CHR 0x5C]
      else if n = 8 then [CHR 0x5C, CHR ''b'']
      else if n = 9 then [CHR 0x5C, CHR ''t'']
      else if n = 10 then [CHR 0x5C, CHR ''n'']
      else if n = 12 then [CHR 0x5C, CHR ''f'']
      else if n = 13 then [CHR 0x5C, CHR ''r'']
      else if n < 32 then [CHR 0x5C, CHR ''u'', CHR ''0'', CHR ''0'', hex_digit (n div 16), hex_digit (n mod 16)]
      else [c])"

definition JSON_quote :: "string \<Rightarrow> string" where
  "JSON_quote s = [CHR 0x22] @ concat (map JSON_escape s) @ [CHR 0x22]"

fun join_comma :: "string list \<Rightarrow> string" where
  "join_comma [] = []"
| "join_comma [x] = x"
| "join_comma (x # y # rest) = x @ '','' @ join_comma (y # rest)"

text \<open>\<open>JSON.stringify(secret)\<close> for \<open>secret = { data: obj }\<close>.\<close>

definition JSON_stringify_secret :: "(string \<times> string) list \<Rightarrow> string" where
  "JSON_stringify_secret obj =
     ''{'' @ JSON_quote ''data'' @ '':{'' @
     join_comma (map (\<lambda>(k, v). JSON_quote k @ '':'' @ JSON_quote v) (own_properties obj)) @
     ''}}''"

section \<open>The commands (\<^verbatim>\<open>commands.js\<close>)\<close>

text \<open>
  What can be thrown: \<open>ExitError\<close> with its exit code, a plain \<open>Error\<close> with its message, and
  the \<open>TypeError\<close> of \<open>process.stdout.write(undefined)\<close>.
\<close>

datatype error = ExitError int | Error string | TypeError

text \<open>
  The result of \<open>child_process.spawnSync\<close>: either \<open>error\<close> is set (with its \<open>code\<close> and its
  rendering as text), or the process ran and left a status (\<open>None\<close> when a signal ended it),
  its standard output and its standard error.
\<close>

datatype spawn_result = SpawnError string string | Spawned "int option" string string

text \<open>
  The external tool is a parameter: it answers an invocation from the invocations made so
  far and the arguments of this one. The \<open>world\<close> records the invocations and what was
  written to the standard streams.
\<close>

type_synonym kubectl = "string list list \<Rightarrow> string list \<Rightarrow> spawn_result"

record world =
  calls :: "string list list"
  out :: "string list"
  err :: "string list"

definition runKubectlOrExit ::
  "kubectl \<Rightarrow> string list \<Rightarrow> string option \<Rightarrow> world \<Rightarrow> (error + string) \<times> world" where
  "runKubectlOrExit K args errorMessage w =
     (let spawnResult = K (calls w) args;
          w1 = w\<lparr>calls := calls w @ [args]\<rparr>;
          fail = (\<lambda>commandError.
            (Inl (ExitError 1),
             w1\<lparr>err := err w1 @ [commandError] @
                (case errorMessage of
                   None \<Rightarrow> []
                 | Some m \<Rightarrow> if m = [] then [] else [m @ [nl]])\<rparr>))
      in case spawnResult of
           SpawnError code text \<Rightarrow>
             if code = ''ENOENT'' then fail (''Could not find `kubectl`. Is this installed?'' @ [nl])
             else fail (''Unknown error executing `kubectl`: '' @ text @ [nl])
         | Spawned status stdout stderr \<Rightarrow>
             if status \<noteq> Some 0 then fail stderr else (Inr stdout, w1))"

definition namespaceArgs :: "string option \<Rightarrow> string list" where
  "namespaceArgs namespace =
     (case namespace of None \<Rightarrow> [] | Some n \<Rightarrow> if n = [] then [] else [''-n'', n])"

subsection \<open>\<open>getSecret\<close>\<close>

text \<open>
  A display value is the encoded string, or the \<open>Buffer\<close> of decoded bytes. In a condition
  the empty string and \<open>undefined\<close> count as false, every \<open>Buffer\<close> as true.
\<close>

datatype displayValue = Str string | Buf string

fun truthy :: "displayValue option \<Rightarrow> bool" where
  "truthy None = False"
| "truthy (Some (Str s)) = (s \<noteq> [])"
| "truthy (Some (Buf b)) = True"

fun written :: "displayValue \<Rightarrow> string" where
  "written (Str s) = s"
| "written (Buf b) = b"

definition getFormat :: string where
  "getFormat = ''go-template={{range $key, $value := .data}}{{$key}}:{{$value}}'' @ [nl] @ ''{{end}}''"

text \<open>The callback of \<open>allLines.map\<close>, without its push to \<open>orderedKeys\<close>.\<close>

definition lineEntry :: "bool \<Rightarrow> string \<Rightarrow> string \<times> displayValue" where
  "lineEntry shouldDecode line =
     (let colonIndex = indexOf line (CHR '':'');
          key = substring line 0 (Some colonIndex);
          encodedValue = substring line (colonIndex + 1) None;
          displayValue = (if shouldDecode then Buf (base64_decode encodedValue) else Str encodedValue)
      in (key, displayValue))"

definition allLines :: "string \<Rightarrow> string list" where
  "allLines getSecretsResult =
     (let rawLines = split_nl getSecretsResult in take (length rawLines - 1) rawLines)"

text \<open>The array of entries that \<open>allLines.map\<close> hands to \<open>new Map\<close>.\<close>

definition lineEntries :: "bool \<Rightarrow> string \<Rightarrow> (string \<times> displayValue) list" where
  "lineEntries shouldDecode getSecretsResult =
     map (lineEntry shouldDecode) (allLines getSecretsResult)"

text \<open>
  The callback of \<open>keys.map\<close> in the validation: the first key whose value is false in a
  condition throws; \<open>Inl\<close> carries that key.
\<close>

fun requireKeys :: "(string, displayValue) Map \<Rightarrow> string list \<Rightarrow> string + (string \<times> displayValue) list" where
  "requireKeys valuesByKey [] = Inr []"
| "requireKeys valuesByKey (key # rest) =
     (let v = Map_get valuesByKey key in
      if \<not> truthy v then Inl key
      else (case v of
              None \<Rightarrow> Inl key
            | Some v' \<Rightarrow>
                (case requireKeys valuesByKey rest of
                   Inl k \<Rightarrow> Inl k
                 | Inr entries \<Rightarrow> Inr ((key, v') # entries))))"

definition keyNotFound :: "string \<Rightarrow> string \<Rightarrow> string" where
  \<open>keyNotFound key secretName =
     ''Error: Key "'' @ key @ ''" not found in secret "'' @ secretName @ ''".'' @ [nl]\<close>

text \<open>
  The loop \<open>orderedKeys.forEach((key, i) => ...)\<close>, from index \<open>i\<close> on; \<open>n\<close> is
  \<open>orderedKeys.length\<close>.
\<close>

fun printKeys ::
  "bool \<Rightarrow> (string, displayValue) Map \<Rightarrow> nat \<Rightarrow> nat \<Rightarrow> string list \<Rightarrow> world \<Rightarrow> (error + unit) \<times> world" where
  "printKeys quiet displayValues n i [] w = (Inr (), w)"
| "printKeys quiet displayValues n i (key # rest) w =
     (if quiet then
        (case Map_get displayValues key of
           None \<Rightarrow> (Inl TypeError, w)
         | Some v \<Rightarrow>
             printKeys quiet displayValues n (Suc i) rest
               (w\<lparr>out := out w @ [written v] @ (if int i < int n - 1 then [[nl]] else [])\<rparr>))
      else
        (case Map_get displayValues key of
           None \<Rightarrow> (Inl TypeError, w\<lparr>out := out w @ [key @ '': '']\<rparr>)
         | Some v \<Rightarrow>
             printKeys quiet displayValues n (Suc i) rest
               (w\<lparr>out := out w @ [key @ '': '', written v, [nl]]\<rparr>)))"

text \<open>
  \<open>orderedKeys\<close> and \<open>keys\<close> are the same array: the keys pushed while the lines are mapped
  (when no key was requested) are in \<open>keys\<close> when its length is tested again, whereas
  \<open>keysProvided\<close> keeps the first answer. \<open>Inr ()\<close> is the return of \<open>Promise.resolve()\<close>.
\<close>

definition getSecret ::
  "kubectl \<Rightarrow> string option \<Rightarrow> string \<Rightarrow> string list \<Rightarrow> bool \<Rightarrow> bool \<Rightarrow> world \<Rightarrow> (error + unit) \<times> world" where
  "getSecret K namespace secretName keys shouldDecode quiet w =
     (let argsList = namespaceArgs namespace @ [''get'', ''secret'', secretName, ''-o'', getFormat] in
      case runKubectlOrExit K argsList None w of
        (Inl e, w1) \<Rightarrow> (Inl e, w1)
      | (Inr getSecretsResult, w1) \<Rightarrow>
          (let keysProvided = (length keys > 0);
               entries = lineEntries shouldDecode getSecretsResult;
               orderedKeys = (if keysProvided then keys else keys @ map fst entries);
               valuesByKey = new_Map entries
           in
           (case (if length orderedKeys > 0
                  then (case requireKeys valuesByKey orderedKeys of
                          Inl key \<Rightarrow> Inl key
                        | Inr selected \<Rightarrow> Inr (new_Map selected))
                  else Inr valuesByKey) of
              Inl key \<Rightarrow> (Inl (ExitError 1), w1\<lparr>err := err w1 @ [keyNotFound key secretName]\<rparr>)
            | Inr displayValues \<Rightarrow>
                (let w2 = (if quiet then w1
                           else if keysProvided
                           then w1\<lparr>out := out w1 @ [''Selected keys from '' @ secretName @ '' -'' @ [nl]]\<rparr>
                           else w1\<lparr>out := out w1 @ [''All keys from '' @ secretName @ '' -'' @ [nl]]\<rparr>)
                 in printKeys quiet displayValues (length orderedKeys) 0 orderedKeys w2))))"

subsection \<open>\<open>setSecret\<close> and \<open>createSecret\<close>\<close>

text \<open>
  Standard input reaches the program as \<^emph>\<open>chunks\<close>: the lines readline emits, one \<open>line\<close>
  event each, within one turn of the event loop. The continuations of promises run between
  two chunks, never inside one; a caller that waits on a pending promise resumes after the
  chunk that settles it. When the input ends first, the promise stays pending.
\<close>

fun awaitLine ::
  "nat \<Rightarrow> string list list \<Rightarrow> BetterPrompt \<Rightarrow> outcome option \<times> string list list \<times> BetterPrompt" where
  "awaitLine p [] s = (None, [], s)"
| "awaitLine p (chunk # chunks) s =
     (let s' = deliver chunk s in
      case promises s' p of
        Some v \<Rightarrow> (Some v, chunks, s')
      | None \<Rightarrow> awaitLine p chunks s')"

definition nextLine ::
  "string \<Rightarrow> string list list \<Rightarrow> BetterPrompt \<Rightarrow> outcome option \<times> string list list \<times> BetterPrompt" where
  "nextLine query chunks s =
     (let (p, s1) = getNextLine query s in
      case promises s1 p of
        Some v \<Rightarrow> (Some v, chunks, s1)
      | None \<Rightarrow> awaitLine p chunks s1)"

definition query :: "bool \<Rightarrow> string \<Rightarrow> string" where
  "query skipEncode key =
     (if skipEncode then ''New encoded value for '' @ key @ '': ''
      else ''New unencoded value for '' @ key @ '': '')"

text \<open>
  The reduction over \<open>keys\<close>: one \<open>getNextLine\<close> per key, each issued when the one before has
  given its value. \<open>Waiting\<close>: the chain is still pending when the input has ended.
\<close>

datatype 'a chain = Done 'a | Failed string | Waiting

fun readValues ::
  "bool \<Rightarrow> string list \<Rightarrow> (string \<times> string) list \<Rightarrow> string list list \<Rightarrow> BetterPrompt \<Rightarrow>
     (string \<times> string) list chain \<times> BetterPrompt" where
  "readValues skipEncode [] pairs chunks s = (Done pairs, s)"
| "readValues skipEncode (key # rest) pairs chunks s =
     (case nextLine (query skipEncode key) chunks s of
        (None, chunks', s') \<Rightarrow> (Waiting, s')
      | (Some (Rejected e), chunks', s') \<Rightarrow> (Failed e, s')
      | (Some (Fulfilled v), chunks', s') \<Rightarrow>
          readValues skipEncode rest (pairs @ [(key, v)]) chunks' s')"

definition secretData :: "bool \<Rightarrow> (string \<times> string) list \<Rightarrow> (string \<times> string) list" where
  "secretData skipEncode pairs =
     foldl (\<lambda>data (key, v). obj_assign key (if \<not> skipEncode then base64_encode v else v) data)
       [] pairs"

definition keysFormat :: string where
  "keysFormat = ''go-template={{range $key, $ignored := .data}}{{$key}}'' @ [nl] @ ''{{end}}''"

text \<open>
  How a command ends: it throws before it returns a promise, or its promise is rejected,
  resolved, or pending for ever. The prompt is returned with it (\<open>None\<close>: none was created).
\<close>

datatype completion = Threw error | RejectedWith error | Resolved | Pending

definition setSecret ::
  "kubectl \<Rightarrow> string option \<Rightarrow> string \<Rightarrow> string list \<Rightarrow> bool \<Rightarrow> string list list \<Rightarrow> world \<Rightarrow>
     completion \<times> BetterPrompt option \<times> world" where
  "setSecret K namespace secretName keys skipEncode chunks w =
     (case (if length keys = 0
            then (case runKubectlOrExit K
                         (namespaceArgs namespace @ [''get'', ''secret'', secretName, ''-o'', keysFormat])
                         None w of
                    (Inl e, w1) \<Rightarrow> (Inl e, w1)
                  | (Inr getSecretsResult, w1) \<Rightarrow> (Inr (allLines getSecretsResult), w1))
            else (Inr keys, w)) of
        (Inl e, w1) \<Rightarrow> (Threw e, None, w1)
      | (Inr keys', w1) \<Rightarrow>
          (case readValues skipEncode keys' [] chunks newBetterPrompt of
             (Waiting, prompt) \<Rightarrow> (Pending, Some prompt, w1)
           | (Failed e, prompt) \<Rightarrow> (RejectedWith (Error e), Some (close prompt), w1)
           | (Done pairs, prompt) \<Rightarrow>
               (case runKubectlOrExit K
                       (namespaceArgs namespace @
                        [''patch'', ''secret'', secretName, ''-p'',
                         JSON_stringify_secret (secretData skipEncode pairs)])
                       None w1 of
                  (Inl e, w2) \<Rightarrow> (RejectedWith e, Some (close prompt), w2)
                | (Inr _, w2) \<Rightarrow>
                    (Resolved, Some (close prompt),
                     w2\<lparr>out := out w2 @ [secretName @ '' updated.'' @ [nl]]\<rparr>))))"

definition createSecret ::
  "kubectl \<Rightarrow> string option \<Rightarrow> string \<Rightarrow> string list \<Rightarrow> bool \<Rightarrow> string list list \<Rightarrow> world \<Rightarrow>
     completion \<times> BetterPrompt option \<times> world" where
  "createSecret K namespace secretName keys encodeValues chunks w =
     (case runKubectlOrExit K
             (namespaceArgs namespace @ [''create'', ''secret'', ''generic'', secretName])
             None w of
        (Inl e, w1) \<Rightarrow> (Threw e, None, w1)
      | (Inr _, w1) \<Rightarrow>
          if length keys > 0 then setSecret K namespace secretName keys encodeValues chunks w1
          else (Resolved, None, w1))"

section \<open>The dispatch (\<^verbatim>\<open>cli.js\<close>)\<close>

text \<open>
  The parsed arguments. The positional \<open>name\<close> is declared with \<open>nargs: 1\<close>, so the parser
  yields an array of one string; every use converts it to that string, which \<open>name\<close> holds.
\<close>

record args =
  command :: string
  namespace :: "string option"
  name :: string
  key :: "string list"
  decode :: bool
  quiet :: bool
  encoded :: bool

text \<open>
  How the process ends: \<open>process.exit\<close> with a code, normally once the chain has resolved,
  with an error nobody caught, or with the chain still pending.
\<close>

datatype ending = Exit int | Finished | Uncaught error | Suspended

definition versionHint :: string where
  "versionHint = [nl] @ ''Error validating `kubectl` credentials. See above for details.''"

fun ending_of :: "completion \<Rightarrow> ending" where
  "ending_of (Threw (ExitError c)) = Exit c"
| "ending_of (Threw e) = Uncaught e"
| "ending_of (RejectedWith (ExitError c)) = Exit c"
| "ending_of (RejectedWith e) = Uncaught e"
| "ending_of Resolved = Finished"
| "ending_of Pending = Suspended"

definition main :: "kubectl \<Rightarrow> args \<Rightarrow> string list list \<Rightarrow> world \<Rightarrow> ending \<times> BetterPrompt option \<times> world" where
  "main K a chunks w =
     (case runKubectlOrExit K [''version''] (Some versionHint) w of
        (Inl e, w1) \<Rightarrow> (ending_of (RejectedWith e), None, w1)
      | (Inr _, w1) \<Rightarrow>
          if command a = ''get'' then
            (case getSecret K (namespace a) (name a) (key a) (decode a) (quiet a) w1 of
               (Inl e, w2) \<Rightarrow> (ending_of (Threw e), None, w2)
             | (Inr _, w2) \<Rightarrow> (ending_of Resolved, None, w2))
          else if command a = ''set'' then
            (case setSecret K (namespace a) (name a) (key a) (encoded a) chunks w1 of
               (c, prompt, w2) \<Rightarrow> (ending_of c, prompt, w2))
          else if command a = ''create'' then
            (case createSecret K (namespace a) (name a) (key a) (encoded a) chunks w1 of
               (c, prompt, w2) \<Rightarrow> (ending_of c, prompt, w2))
          else (ending_of (RejectedWith (Error ''programming error - unhandled command'')), None, w1))"

section \<open>Invariants used in the proofs\<close>

text \<open>
  What every reachable state of the line buffer satisfies: \<open>listenerResolve\<close> is unset, no
  promise beyond the last one created is settled, and a registered waiter is a pending
  promise that faces an empty queue.
\<close>

definition settled_ok :: "BetterPrompt \<Rightarrow> bool" where
  "settled_ok s =
     (listenerResolve s = None \<and> (\<forall>p. nextPromise s \<le> p \<longrightarrow> promises s p = None) \<and>
      (case resolve s of
         None \<Rightarrow> True
       | Some p \<Rightarrow> linesQueue s = [] \<and> promises s p = None \<and> p < nextPromise s))"

text \<open>No promise of the line buffer is rejected.\<close>

definition never_rejected :: "BetterPrompt \<Rightarrow> bool" where
  "never_rejected s = (\<forall>p e. promises s p \<noteq> Some (Rejected e))"

section \<open>Properties of the line buffer\<close>

lemma settled_ok_new: "settled_ok newBetterPrompt"
  by (simp add: settled_ok_def newBetterPrompt_def)

lemma settled_ok_handleLine: "settled_ok s \<Longrightarrow> settled_ok (handleLine line s)"
  by (auto simp: settled_ok_def handleLine_def settle_def split: option.splits)

lemma settled_ok_getNextLine: "settled_ok s \<Longrightarrow> settled_ok (snd (getNextLine prompt s))"
  by (auto simp: settled_ok_def getNextLine_def settle_def Let_def
           split: option.splits list.splits)

lemma settled_ok_step: "settled_ok s \<Longrightarrow> settled_ok (step s x)"
  by (cases x) (simp_all add: settled_ok_handleLine settled_ok_getNextLine)

lemma settled_ok_foldl: "settled_ok s \<Longrightarrow> settled_ok (foldl step s ops)"
  by (induction ops arbitrary: s) (simp_all add: settled_ok_step)

lemma settled_ok_run: "settled_ok (run ops)"
  by (simp add: run_def settled_ok_foldl settled_ok_new)

text \<open>
  Claim C10. After every sequence of \<open>handleLine\<close> and \<open>getNextLine\<close> operations on a new
  line buffer, the queue of lines is non-empty only when no waiter is registered.
\<close>

theorem queue_nonempty_only_without_waiter:
  "linesQueue (run ops) \<noteq> [] \<longrightarrow> resolve (run ops) = None"
  using settled_ok_run [of ops] by (auto simp: settled_ok_def split: option.splits)

theorem queue_nonempty_only_without_waiter_witness:
  "linesQueue (run [HandleLine ''x'']) \<noteq> [] \<and> resolve (run [HandleLine ''x'']) = None"
  using queue_nonempty_only_without_waiter [of "[HandleLine ''x'']"]
  by (simp add: run_def handleLine_def newBetterPrompt_def)

text \<open>
  In every reachable state in which a waiter is registered, a line that arrives settles the
  waiter's promise with exactly that line; the queue is left as it was (empty), the waiter
  is removed, and no other promise changes.
\<close>

lemma registered_waiter_gets_arriving_line:
  assumes "resolve (run ops) = Some p"
  shows "promises (handleLine line (run ops)) p = Some (Fulfilled line)
       \<and> linesQueue (handleLine line (run ops)) = linesQueue (run ops)
       \<and> linesQueue (handleLine line (run ops)) = []
       \<and> resolve (handleLine line (run ops)) = None
       \<and> (\<forall>q. q \<noteq> p \<longrightarrow> promises (handleLine line (run ops)) q = promises (run ops) q)"
  using assms settled_ok_run [of ops]
  by (auto simp: settled_ok_def handleLine_def settle_def split: option.splits)

lemma deliver_queue:
  "resolve s = None \<Longrightarrow> deliver ls s = s\<lparr>linesQueue := linesQueue s @ ls\<rparr>"
  by (induction ls arbitrary: s) (simp_all add: deliver_def handleLine_def)

lemma requestLines_queued:
  "listenerResolve s = None \<Longrightarrow> resolve s = None \<Longrightarrow>
   (\<forall>p. nextPromise s \<le> p \<longrightarrow> promises s p = None) \<Longrightarrow>
   length prompts \<le> length (linesQueue s) \<Longrightarrow>
   fst (requestLines prompts s) =
     map (\<lambda>l. Some (Fulfilled l)) (take (length prompts) (linesQueue s))
   \<and> linesQueue (snd (requestLines prompts s)) = drop (length prompts) (linesQueue s)
   \<and> resolve (snd (requestLines prompts s)) = None"
proof (induction prompts arbitrary: s)
  case Nil
  then show ?case by simp
next
  case (Cons a prompts)
  obtain l rest where q: "linesQueue s = l # rest"
    using Cons.prems(4) by (cases "linesQueue s") auto
  obtain p s1 where g: "getNextLine a s = (p, s1)"
    by (cases "getNextLine a s")
  have s1: "listenerResolve s1 = None" "resolve s1 = None" "linesQueue s1 = rest"
    "promises s1 p = Some (Fulfilled l)" "\<forall>p. nextPromise s1 \<le> p \<longrightarrow> promises s1 p = None"
    using g q Cons.prems(1,2,3) by (auto simp: getNextLine_def Let_def settle_def)
  have len: "length prompts \<le> length (linesQueue s1)"
    using Cons.prems(4) q s1 by simp
  from Cons.IH [OF s1(1) s1(2) s1(5) len] show ?case
    using g q s1 by (simp add: split_beta)
qed

text \<open>
  Claim C5. When the lines \<open>ls\<close> are delivered to a new line buffer before any request,
  the following calls of \<open>getNextLine\<close> (at most as many as there are lines) each return a
  promise that is fulfilled at once, with the lines in the order of their delivery; each
  call removes its line from the queue, and no waiter is registered.
\<close>

theorem queued_lines_consumed_fifo:
  assumes "length prompts \<le> length ls"
  shows "fst (requestLines prompts (deliver ls newBetterPrompt)) =
           map (\<lambda>l. Some (Fulfilled l)) (take (length prompts) ls)
       \<and> linesQueue (snd (requestLines prompts (deliver ls newBetterPrompt))) =
           drop (length prompts) ls
       \<and> resolve (snd (requestLines prompts (deliver ls newBetterPrompt))) = None"
proof -
  have d: "deliver ls newBetterPrompt = newBetterPrompt\<lparr>linesQueue := ls\<rparr>"
    by (simp add: deliver_queue newBetterPrompt_def)
  show ?thesis unfolding d
    using requestLines_queued [of "newBetterPrompt\<lparr>linesQueue := ls\<rparr>" prompts] assms
    by (simp add: newBetterPrompt_def)
qed

theorem queued_lines_consumed_fifo_witness:
  "length [''p1'', ''p2''] \<le> length [''a'', ''b'', ''c''] \<and>
   fst (requestLines [''p1'', ''p2''] (deliver [''a'', ''b'', ''c''] newBetterPrompt)) =
     [Some (Fulfilled ''a''), Some (Fulfilled ''b'')]
   \<and> linesQueue (snd (requestLines [''p1'', ''p2''] (deliver [''a'', ''b'', ''c''] newBetterPrompt))) =
     [''c'']"
proof -
  have h: "length [''p1'', ''p2''] \<le> length [''a'', ''b'', ''c'']" by simp
  show ?thesis using queued_lines_consumed_fifo [OF h] by simp
qed

text \<open>
  In no reachable state is a promise rejected: the test of \<open>listenerResolve\<close> never succeeds.
\<close>

lemma never_rejected_step:
  "settled_ok s \<Longrightarrow> never_rejected s \<Longrightarrow> never_rejected (step s x)"
  by (cases x)
     (auto simp: settled_ok_def never_rejected_def handleLine_def getNextLine_def settle_def Let_def
           split: option.splits list.splits)

lemma never_rejected_foldl:
  "settled_ok s \<Longrightarrow> never_rejected s \<Longrightarrow> never_rejected (foldl step s ops)"
  by (induction ops arbitrary: s) (simp_all add: never_rejected_step settled_ok_step)

lemma getNextLine_never_rejects: "promises (run ops) p \<noteq> Some (Rejected e)"
  using never_rejected_foldl [OF settled_ok_new, of ops]
  by (simp add: run_def never_rejected_def newBetterPrompt_def)

text \<open>
  Claim C1, evaluated on the code. A second \<open>getNextLine\<close> issued while the first is
  waiting is not rejected: its promise is pending and replaces the first one as waiter.
  The next line fulfils the second promise, and the first one stays pending.
\<close>

theorem getNextLine_second_call_not_rejected:
  "(let (p1, s1) = getNextLine ''first'' newBetterPrompt;
        (p2, s2) = getNextLine ''second'' s1;
        s3 = handleLine ''x'' s2
    in promises s1 p1 = None \<and> resolve s1 = Some p1
     \<and> promises s2 p2 = None \<and> resolve s2 = Some p2 \<and> p2 \<noteq> p1
     \<and> promises s3 p2 = Some (Fulfilled ''x'') \<and> promises s3 p1 = None \<and> resolve s3 = None)"
  by (simp add: getNextLine_def handleLine_def newBetterPrompt_def settle_def Let_def)

text \<open>
  Claim C6, evaluated on the code. Two requests are issued before any line arrives, so both
  are suspended. The line \<open>x\<close> goes to the second request and the first stays pending;
  the line \<open>y\<close> then finds no waiter registered and is put on the queue, while the first
  request is still waiting and never receives a line.
\<close>

theorem orphaned_request_never_gets_a_line:
  "(let (p1, s1) = getNextLine ''first'' newBetterPrompt;
        (p2, s2) = getNextLine ''second'' s1;
        s3 = handleLine ''x'' s2;
        s4 = handleLine ''y'' s3
    in promises s2 p1 = None \<and> promises s2 p2 = None \<and> p1 \<noteq> p2
     \<and> promises s3 p1 = None \<and> promises s3 p2 = Some (Fulfilled ''x'')
     \<and> resolve s3 = None \<and> linesQueue s3 = []
     \<and> promises s4 p1 = None \<and> linesQueue s4 = [''y''])"
  by (simp add: getNextLine_def handleLine_def newBetterPrompt_def settle_def Let_def)

section \<open>Properties of the value codec\<close>

lemma unbase64_b64char: "n < 64 \<Longrightarrow> unbase64 (b64char n) = Some n"
  by (auto simp: unbase64_def b64char_def Let_def)

lemma unbase64_pad: "unbase64 (CHR ''='') = None"
  by (simp add: unbase64_def)

lemma is_std_inverse: "is_std c \<Longrightarrow> \<exists>n<64. unbase64 c = Some n \<and> b64char n = c"
  by (auto simp: is_std_def unbase64_def b64char_def Let_def split: if_splits)

lemma sextets_group:
  "a < 64 \<Longrightarrow> sextets (b64char a # cs) = a # sextets cs"
  by (simp add: unbase64_b64char)

lemma sextets_pad: "sextets (CHR ''='' # cs) = []"
  by (simp add: unbase64_pad)

lemma sextets_std: "unbase64 c = Some n \<Longrightarrow> sextets (c # cs) = n # sextets cs"
  by simp

lemma pack_encode_groups:
  "\<forall>x\<in>set xs. x < 256 \<Longrightarrow> pack (sextets (encode_groups xs)) = xs"
proof (induction xs rule: encode_groups.induct)
  case (1 x y z rest)
  have b: "x div 4 < 64" "x mod 4 * 16 + y div 16 < 64" "y mod 16 * 4 + z div 64 < 64" "z mod 64 < 64"
    using "1.prems" by auto
  have e: "x div 4 * 4 + (x mod 4 * 16 + y div 16) div 16 = x"
    "(x mod 4 * 16 + y div 16) mod 16 * 16 + (y mod 16 * 4 + z div 64) div 4 = y"
    "(y mod 16 * 4 + z div 64) mod 4 * 64 + z mod 64 = z"
    using "1.prems" by auto
  have r: "pack (sextets (encode_groups rest)) = rest" using 1 by simp
  have "sextets (encode_groups (x # y # z # rest)) =
          x div 4 # (x mod 4 * 16 + y div 16) # (y mod 16 * 4 + z div 64) # z mod 64 #
          sextets (encode_groups rest)"
    by (simp add: sextets_group b del: sextets.simps)
  then show ?case by (simp only: pack.simps e r append.simps)
next
  case (2 x y)
  have b: "x div 4 < 64" "x mod 4 * 16 + y div 16 < 64" "y mod 16 * 4 < 64"
    using "2.prems" by auto
  have e: "x div 4 * 4 + (x mod 4 * 16 + y div 16) div 16 = x"
    "(x mod 4 * 16 + y div 16) mod 16 * 16 + (y mod 16 * 4) div 4 = y"
    using "2.prems" by auto
  have "sextets (encode_groups [x, y]) = [x div 4, x mod 4 * 16 + y div 16, y mod 16 * 4]"
    by (simp add: sextets_group sextets_pad b del: sextets.simps(2))
  then show ?case by (simp only: pack.simps e)
next
  case (3 x)
  have b: "x div 4 < 64" "x mod 4 * 16 < 64"
    using "3.prems" by auto
  have e: "x div 4 * 4 + (x mod 4 * 16) div 16 = x"
    using "3.prems" by auto
  have "sextets (encode_groups [x]) = [x div 4, x mod 4 * 16]"
    by (simp add: sextets_group sextets_pad b del: sextets.simps(2))
  then show ?case by (simp only: pack.simps e)
next
  case 4
  show ?case by simp
qed

lemma utf8_scan_ascii_Cons:
  assumes "(of_char c :: nat) < 0x80"
  shows "utf8_scan (c # cs) = Some (of_char c) # utf8_scan cs"
proof (cases cs)
  case Nil
  then show ?thesis using assms by simp
next
  case c2: (Cons c2 cs2)
  show ?thesis
  proof (cases cs2)
    case Nil
    then show ?thesis using assms c2 by (simp add: Let_def)
  next
    case c3: (Cons c3 cs3)
    show ?thesis
    proof (cases cs3)
      case Nil
      then show ?thesis using assms c2 c3 by (simp add: Let_def)
    next
      case (Cons c4 cs4)
      then show ?thesis using assms c2 c3 by (simp add: Let_def)
    qed
  qed
qed

lemma low_bytes_ascii: "\<forall>c\<in>set s. (of_char c :: nat) < 0x80 \<Longrightarrow> low_bytes s = s"
proof (induction s)
  case Nil
  show ?case by (simp add: low_bytes_def)
next
  case (Cons c s)
  then have "low_bytes s = s" and c: "(of_char c :: nat) < 0x80" by simp_all
  then show ?case using utf8_scan_ascii_Cons [OF c, of s] by (simp add: low_bytes_def)
qed

lemma b64char_ascii: "(of_char (b64char n) :: nat) < 0x80"
  by (auto simp: b64char_def)

lemma encode_groups_ascii: "\<forall>c\<in>set (encode_groups xs). (of_char c :: nat) < 0x80"
  by (induction xs rule: encode_groups.induct) (simp_all add: b64char_ascii)

lemma is_std_ascii: "is_std c \<Longrightarrow> (of_char c :: nat) < 0x80"
  by (auto simp: is_std_def unbase64_def Let_def split: if_splits)

lemma canonical_base64_ascii:
  "canonical_base64 x \<Longrightarrow> \<forall>c\<in>set x. (of_char c :: nat) < 0x80"
proof (induction x rule: canonical_base64.induct)
  case (2 a b c d rest)
  show ?case
  proof (cases "rest = []")
    case True
    with "2.prems" have "final_group_canonical a b c d" by simp
    then have "(of_char a :: nat) < 0x80" "(of_char b :: nat) < 0x80"
      "(of_char c :: nat) < 0x80" "(of_char d :: nat) < 0x80"
      by (auto simp: final_group_canonical_def dest: is_std_ascii split: if_splits)
    then show ?thesis using True by simp
  next
    case False
    with "2.prems" have "is_std a" "is_std b" "is_std c" "is_std d" "canonical_base64 rest"
      by auto
    then show ?thesis using "2.IH" False by (simp add: is_std_ascii)
  qed
qed simp_all

lemma decode_encode: "base64_decode (base64_encode b) = b"
proof -
  have "\<forall>x\<in>set (map of_char b :: nat list). x < 256" by simp
  then have "pack (sextets (encode_groups (map of_char b))) = map of_char b"
    by (rule pack_encode_groups)
  moreover have "low_bytes (encode_groups (map of_char b)) = encode_groups (map of_char b)"
    by (rule low_bytes_ascii [OF encode_groups_ascii])
  ultimately show ?thesis by (simp add: base64_decode_def base64_encode_def comp_def)
qed

lemma encode_full_group:
  assumes "a < 64" "b < 64" "c < 64" "d < 64"
  shows "encode_groups (map of_char (map char_of ([a * 4 + b div 16, (b mod 16) * 16 + c div 4, (c mod 4) * 64 + d] @ ys) :: string))
       = [b64char a, b64char b, b64char c, b64char d] @ encode_groups (map of_char (map char_of ys :: string))"
proof -
  have m: "(a * 4 + b div 16) mod 256 = a * 4 + b div 16"
    "((b mod 16) * 16 + c div 4) mod 256 = (b mod 16) * 16 + c div 4"
    "((c mod 4) * 64 + d) mod 256 = (c mod 4) * 64 + d"
    using assms by auto
  have e: "(a * 4 + b div 16) div 4 = a"
    "(a * 4 + b div 16) mod 4 * 16 + (b mod 16 * 16 + c div 4) div 16 = b"
    "(b mod 16 * 16 + c div 4) mod 16 * 4 + (c mod 4 * 64 + d) div 64 = c"
    "(c mod 4 * 64 + d) mod 64 = d"
    using assms by auto
  have l: "map of_char (map char_of ([a * 4 + b div 16, (b mod 16) * 16 + c div 4, (c mod 4) * 64 + d] @ ys) :: string)
      = (a * 4 + b div 16) # ((b mod 16) * 16 + c div 4) # ((c mod 4) * 64 + d) # map of_char (map char_of ys :: string)"
    by (simp only: list.map append.simps of_char_of m)
  show ?thesis unfolding l by (simp only: encode_groups.simps e)
qed

lemma encode_one_byte:
  assumes "a < 64" "b < 64" "b mod 16 = 0"
  shows "encode_groups (map of_char (map char_of [a * 4 + b div 16] :: string))
       = [b64char a, b64char b, CHR ''='', CHR ''='']"
proof -
  have m: "(a * 4 + b div 16) mod 256 = a * 4 + b div 16"
    using assms by auto
  have e: "(a * 4 + b div 16) div 4 = a" "(a * 4 + b div 16) mod 4 * 16 = b"
    using assms by auto
  have l: "map of_char (map char_of [a * 4 + b div 16] :: string) = [a * 4 + b div 16]"
    by (simp only: list.map of_char_of m)
  show ?thesis unfolding l by (simp only: encode_groups.simps e)
qed

lemma encode_two_bytes:
  assumes "a < 64" "b < 64" "c < 64" "c mod 4 = 0"
  shows "encode_groups (map of_char (map char_of [a * 4 + b div 16, (b mod 16) * 16 + c div 4] :: string))
       = [b64char a, b64char b, b64char c, CHR ''='']"
proof -
  have m: "(a * 4 + b div 16) mod 256 = a * 4 + b div 16"
    "((b mod 16) * 16 + c div 4) mod 256 = (b mod 16) * 16 + c div 4"
    using assms by auto
  have e: "(a * 4 + b div 16) div 4 = a"
    "(a * 4 + b div 16) mod 4 * 16 + (b mod 16 * 16 + c div 4) div 16 = b"
    "(b mod 16 * 16 + c div 4) mod 16 * 4 = c"
    using assms by auto
  have l: "map of_char (map char_of [a * 4 + b div 16, (b mod 16) * 16 + c div 4] :: string)
      = [a * 4 + b div 16, (b mod 16) * 16 + c div 4]"
    by (simp only: list.map of_char_of m)
  show ?thesis unfolding l by (simp only: encode_groups.simps e)
qed

lemma final_group_round_trip:
  assumes "final_group_canonical a b c d"
  shows "encode_groups (map of_char (map char_of (pack (sextets [a, b, c, d])) :: string)) = [a, b, c, d]"
proof -
  from assms have std: "is_std a" "is_std b"
    by (simp_all add: final_group_canonical_def)
  obtain na where na: "na < 64" "unbase64 a = Some na" "b64char na = a"
    using std(1) by (blast dest: is_std_inverse)
  obtain nb where nb: "nb < 64" "unbase64 b = Some nb" "b64char nb = b"
    using std(2) by (blast dest: is_std_inverse)
  show ?thesis
  proof (cases "c = CHR ''=''")
    case True
    with assms nb have d: "d = CHR ''=''" and z: "nb mod 16 = 0"
      by (simp_all add: final_group_canonical_def)
    have "sextets [a, b, c, d] = [na, nb]"
      unfolding True by (simp only: sextets_std [OF na(2)] sextets_std [OF nb(2)] sextets_pad)
    then have "pack (sextets [a, b, c, d]) = [na * 4 + nb div 16]"
      by simp
    then show ?thesis
      using encode_one_byte [OF na(1) nb(1) z] by (simp only: na(3) nb(3) True d)
  next
    case False
    with assms have sc: "is_std c"
      by (simp add: final_group_canonical_def)
    obtain nc where nc: "nc < 64" "unbase64 c = Some nc" "b64char nc = c"
      using sc by (blast dest: is_std_inverse)
    show ?thesis
    proof (cases "d = CHR ''=''")
      case True
      with assms False nc have z: "nc mod 4 = 0"
        by (simp add: final_group_canonical_def)
      have "sextets [a, b, c, d] = [na, nb, nc]"
        unfolding True
        by (simp only: sextets_std [OF na(2)] sextets_std [OF nb(2)] sextets_std [OF nc(2)] sextets_pad)
      then have "pack (sextets [a, b, c, d]) = [na * 4 + nb div 16, (nb mod 16) * 16 + nc div 4]"
        by simp
      then show ?thesis
        using encode_two_bytes [OF na(1) nb(1) nc(1) z] by (simp only: na(3) nb(3) nc(3) True)
    next
      case dn: False
      with assms False have sd: "is_std d"
        by (simp add: final_group_canonical_def)
      obtain nd where nd: "nd < 64" "unbase64 d = Some nd" "b64char nd = d"
        using sd by (blast dest: is_std_inverse)
      have "sextets [a, b, c, d] = [na, nb, nc, nd]"
        by (simp only: sextets_std [OF na(2)] sextets_std [OF nb(2)] sextets_std [OF nc(2)]
              sextets_std [OF nd(2)] sextets.simps(1))
      then have "pack (sextets [a, b, c, d]) =
          [na * 4 + nb div 16, (nb mod 16) * 16 + nc div 4, (nc mod 4) * 64 + nd] @ []"
        by simp
      then show ?thesis
        using encode_full_group [OF na(1) nb(1) nc(1) nd(1), of "[]"]
        by (simp only: na(3) nb(3) nc(3) nd(3) list.map encode_groups.simps append.simps)
    qed
  qed
qed

lemma encode_decode_canonical:
  "canonical_base64 x \<Longrightarrow> encode_groups (map of_char (map char_of (pack (sextets x)) :: string)) = x"
proof (induction x rule: canonical_base64.induct)
  case 1
  show ?case by simp
next
  case (2 a b c d rest)
  show ?case
  proof (cases "rest = []")
    case False
    with "2.prems" have std: "is_std a" "is_std b" "is_std c" "is_std d" and cr: "canonical_base64 rest"
      by auto
    obtain na where na: "na < 64" "unbase64 a = Some na" "b64char na = a"
      using std(1) by (blast dest: is_std_inverse)
    obtain nb where nb: "nb < 64" "unbase64 b = Some nb" "b64char nb = b"
      using std(2) by (blast dest: is_std_inverse)
    obtain nc where nc: "nc < 64" "unbase64 c = Some nc" "b64char nc = c"
      using std(3) by (blast dest: is_std_inverse)
    obtain nd where nd: "nd < 64" "unbase64 d = Some nd" "b64char nd = d"
      using std(4) by (blast dest: is_std_inverse)
    have ih: "encode_groups (map of_char (map char_of (pack (sextets rest)) :: string)) = rest"
      using "2.IH" False cr by simp
    have "sextets (a # b # c # d # rest) = na # nb # nc # nd # sextets rest"
      by (simp only: sextets_std [OF na(2)] sextets_std [OF nb(2)] sextets_std [OF nc(2)]
              sextets_std [OF nd(2)])
    then have "pack (sextets (a # b # c # d # rest)) =
        [na * 4 + nb div 16, (nb mod 16) * 16 + nc div 4, (nc mod 4) * 64 + nd] @ pack (sextets rest)"
      by simp
    then show ?thesis
      using encode_full_group [OF na(1) nb(1) nc(1) nd(1), of "pack (sextets rest)"]
      by (simp only: na(3) nb(3) nc(3) nd(3) ih append.simps)
  next
    case True
    with "2.prems" have fin: "final_group_canonical a b c d" by simp
    show ?thesis unfolding True by (rule final_group_round_trip [OF fin])
  qed
qed simp_all

text \<open>
  Claim C8, as amended. Encoding the decoding of \<open>x\<close> gives \<open>x\<close> back for every canonical
  base64 string \<open>x\<close> (standard alphabet, groups of four, \<open>=\<close> padding, unused bits zero)
  whose decoded bytes are well-formed UTF-8, so that they are the bytes of the string the
  encoder receives; and decoding the encoding of a string gives back its UTF-8 bytes \<open>s\<close>.
\<close>

theorem codec_round_trip:
  "(canonical_base64 x \<and> well_formed_utf8 (base64_decode x) \<longrightarrow>
      base64_encode (base64_decode x) = x)
   \<and> (well_formed_utf8 s \<longrightarrow> base64_decode (base64_encode s) = s)"
proof -
  have "base64_encode (base64_decode x) = x" if "canonical_base64 x"
  proof -
    have "low_bytes x = x"
      by (rule low_bytes_ascii [OF canonical_base64_ascii [OF that]])
    then show ?thesis
      using encode_decode_canonical [OF that] by (simp add: base64_decode_def base64_encode_def)
  qed
  then show ?thesis using decode_encode [of s] by simp
qed

theorem codec_round_trip_witness:
  "canonical_base64 ''w6k='' \<and> well_formed_utf8 (base64_decode ''w6k='')
   \<and> base64_decode ''w6k='' = [CHR 0xC3, CHR 0xA9]
   \<and> base64_encode (base64_decode ''w6k='') = ''w6k=''
   \<and> well_formed_utf8 [CHR 0xC3, CHR 0xA9]
   \<and> base64_decode (base64_encode [CHR 0xC3, CHR 0xA9]) = [CHR 0xC3, CHR 0xA9]"
proof -
  have d: "base64_decode ''w6k='' = [CHR 0xC3, CHR 0xA9]"
    by (simp add: base64_decode_def low_bytes_def unbase64_def char_of_eq_iff)
  have h: "canonical_base64 ''w6k=''"
    by (simp add: final_group_canonical_def is_std_def unbase64_def)
  have w: "well_formed_utf8 [CHR 0xC3, CHR 0xA9]"
    by (simp add: well_formed_utf8_def continuation_def)
  show ?thesis
    using d h w codec_round_trip [of "''w6k=''" "[CHR 0xC3, CHR 0xA9]"] by simp
qed

text \<open>
  The restriction to text is needed for the program: \<open>/w==\<close> is canonical, and its decoding,
  the single byte \<open>0xFF\<close>, is the UTF-8 encoding of no string.
\<close>

lemma canonical_without_text:
  "canonical_base64 ''/w=='' \<and> base64_decode ''/w=='' = [CHR 0xFF]
   \<and> \<not> well_formed_utf8 (base64_decode ''/w=='')"
proof -
  have d: "base64_decode ''/w=='' = [CHR 0xFF]"
    by (simp add: base64_decode_def low_bytes_def unbase64_def char_of_eq_iff)
  show ?thesis
    unfolding d
    by (simp add: final_group_canonical_def is_std_def unbase64_def well_formed_utf8_def)
qed

text \<open>
  The decoder looks at the low byte of each code unit: \<open>U+0141\<close> counts as \<open>A\<close>.
\<close>

lemma decode_low_byte:
  "base64_decode ([CHR 0xC5, CHR 0x81] @ ''QQ='') = base64_decode ''AQQ=''"
  by (simp add: base64_decode_def low_bytes_def continuation_def unbase64_def char_of_eq_iff)

text \<open>
  Claim C8 as stated fails on a valid base64 string that is not canonical: \<open>QR==\<close> decodes
  to the byte \<open>A\<close>, whose encoding is \<open>QQ==\<close>.
\<close>

theorem valid_base64_round_trip_counterexample:
  "valid_base64 ''QR=='' \<and> base64_encode (base64_decode ''QR=='') \<noteq> ''QR==''"
  by (simp add: final_group_valid_def is_std_def unbase64_def base64_encode_def
        base64_decode_def low_bytes_def b64char_def)

section \<open>Properties of parsing and key selection\<close>

lemma split_nl_nonempty: "split_nl s \<noteq> []"
  by (induction s) (auto split: list.splits)

lemma split_nl_line: "nl \<notin> set l \<Longrightarrow> split_nl (l @ nl # rest) = l # split_nl rest"
  by (induction l) (auto split: list.splits simp: split_nl_nonempty)

lemma split_nl_records:
  "\<forall>(k, v) \<in> set kvs. nl \<notin> set k \<and> nl \<notin> set v \<Longrightarrow>
   split_nl (concat (map (\<lambda>(k, v). k @ '':'' @ v @ [nl]) kvs)) = map (\<lambda>(k, v). k @ '':'' @ v) kvs @ [[]]"
proof (induction kvs)
  case Nil
  show ?case by simp
next
  case (Cons kv kvs)
  obtain k v where kv: "kv = (k, v)" by (cases kv)
  have "nl \<notin> set (k @ '':'' @ v)" using Cons.prems kv by simp
  from split_nl_line [OF this] show ?case using Cons kv by simp
qed

lemma indexOf_first: "ch \<notin> set k \<Longrightarrow> indexOf (k @ ch # v) ch = int (length k)"
  by (induction k) (auto simp: Let_def)

lemma lineEntry_record:
  "CHR '':'' \<notin> set k \<Longrightarrow> lineEntry False (k @ CHR '':'' # v) = (k, Str v)"
proof -
  have n: "nat (int (length k) + 1) = Suc (length k)" by simp
  assume "CHR '':'' \<notin> set k"
  then show ?thesis
    by (simp add: lineEntry_def indexOf_first substring_def Let_def min_def max_def n)
qed

lemma Map_set_new: "k \<notin> fst ` set m \<Longrightarrow> Map_set k v m = m @ [(k, v)]"
  by (induction m) auto

lemma new_Map_distinct_aux:
  "distinct (map fst (m @ xs)) \<Longrightarrow> foldl (\<lambda>m (k, v). Map_set k v m) m xs = m @ xs"
proof (induction xs arbitrary: m)
  case Nil
  show ?case by simp
next
  case (Cons x xs)
  obtain k v where x: "x = (k, v)" by (cases x)
  have "k \<notin> fst ` set m" using Cons.prems x by auto
  then have "Map_set k v m = m @ [(k, v)]" by (rule Map_set_new)
  moreover have "distinct (map fst ((m @ [(k, v)]) @ xs))" using Cons.prems x by simp
  ultimately show ?case using Cons.IH [of "m @ [(k, v)]"] x by simp
qed

lemma new_Map_distinct: "distinct (map fst xs) \<Longrightarrow> new_Map xs = xs"
  using new_Map_distinct_aux [of "[]" xs] by (simp add: new_Map_def)

lemma lineEntries_records:
  assumes "\<forall>(k, v) \<in> set kvs. CHR '':'' \<notin> set k \<and> nl \<notin> set k \<and> nl \<notin> set v"
  shows "lineEntries False (concat (map (\<lambda>(k, v). k @ '':'' @ v @ [nl]) kvs)) = map (\<lambda>(k, v). (k, Str v)) kvs"
proof -
  have "\<forall>(k, v) \<in> set kvs. nl \<notin> set k \<and> nl \<notin> set v" using assms by auto
  then have sp: "split_nl (concat (map (\<lambda>(k, v). k @ '':'' @ v @ [nl]) kvs)) =
      map (\<lambda>(k, v). k @ '':'' @ v) kvs @ [[]]"
    by (rule split_nl_records)
  have "allLines (concat (map (\<lambda>(k, v). k @ '':'' @ v @ [nl]) kvs)) = map (\<lambda>(k, v). k @ '':'' @ v) kvs"
    unfolding allLines_def sp by (simp add: Let_def)
  moreover have "map (lineEntry False) (map (\<lambda>(k, v). k @ '':'' @ v) kvs) = map (\<lambda>(k, v). (k, Str v)) kvs"
    using assms by (auto simp: lineEntry_record)
  ultimately show ?thesis by (simp add: lineEntries_def)
qed

text \<open>
  Claim C4. A dump made of records \<open>key:value\<close>, each ended by a newline, where no key holds
  a colon or a newline and no value holds a newline (a value may hold colons), is parsed
  into the pairs (key, value) in the order of the records: each record is split at its first
  colon and the empty piece after the last newline is dropped. In particular the dump
  \<open>foo:YmFy\nbaz:cXV1eA==\n\<close> gives \<open>[(foo, YmFy), (baz, cXV1eA==)]\<close>.
\<close>

theorem parse_secret_dump:
  "((\<forall>(k, v) \<in> set kvs. CHR '':'' \<notin> set k \<and> nl \<notin> set k \<and> nl \<notin> set v) \<longrightarrow>
      lineEntries False (concat (map (\<lambda>(k, v). k @ '':'' @ v @ [nl]) kvs)) =
        map (\<lambda>(k, v). (k, Str v)) kvs)
   \<and> lineEntries False (''foo:YmFy'' @ [nl] @ ''baz:cXV1eA=='' @ [nl]) =
        [(''foo'', Str ''YmFy''), (''baz'', Str ''cXV1eA=='')]"
proof -
  have "lineEntries False (concat (map (\<lambda>(k, v). k @ '':'' @ v @ [nl]) [(''foo'', ''YmFy''), (''baz'', ''cXV1eA=='')])) =
        map (\<lambda>(k, v). (k, Str v)) [(''foo'', ''YmFy''), (''baz'', ''cXV1eA=='')]"
    by (rule lineEntries_records) simp
  then have "lineEntries False (''foo:YmFy'' @ [nl] @ ''baz:cXV1eA=='' @ [nl]) =
        [(''foo'', Str ''YmFy''), (''baz'', Str ''cXV1eA=='')]"
    by simp
  then show ?thesis using lineEntries_records [of kvs] by blast
qed

theorem parse_secret_dump_witness:
  "lineEntries False (''a:b:c'' @ [nl] @ ''d:'' @ [nl]) = [(''a'', Str ''b:c''), (''d'', Str '''')]"
proof -
  have h: "\<forall>(k, v) \<in> set [(''a'', ''b:c''), (''d'', '''')]. CHR '':'' \<notin> set k \<and> nl \<notin> set k \<and> nl \<notin> set v"
    by simp
  show ?thesis using h parse_secret_dump [of "[(''a'', ''b:c''), (''d'', '''')]"] by simp
qed

lemma requireKeys_first_falsy:
  "\<forall>k\<in>set pre. truthy (Map_get m k) \<Longrightarrow> \<not> truthy (Map_get m k0) \<Longrightarrow>
   requireKeys m (pre @ k0 # post) = Inl k0"
  by (induction pre) (auto simp: Let_def split: option.splits)

text \<open>
  The validation stops at the first requested key whose value is absent or, as a string,
  empty: that key is reported, in both display modes.
\<close>

lemma first_falsy_key_rejected:
  assumes "K (calls w) (namespaceArgs ns @ [''get'', ''secret'', secretName, ''-o'', getFormat]) =
             Spawned (Some 0) dump errs"
    and "\<forall>k\<in>set pre. truthy (Map_get (new_Map (lineEntries shouldDecode dump)) k)"
    and "\<not> truthy (Map_get (new_Map (lineEntries shouldDecode dump)) k0)"
  shows "getSecret K ns secretName (pre @ k0 # post) shouldDecode q w =
           (Inl (ExitError 1),
            w\<lparr>calls := calls w @ [namespaceArgs ns @ [''get'', ''secret'', secretName, ''-o'', getFormat]],
              err := err w @ [keyNotFound k0 secretName]\<rparr>)"
proof -
  have r: "requireKeys (new_Map (lineEntries shouldDecode dump)) (pre @ k0 # post) = Inl k0"
    by (rule requireKeys_first_falsy [OF assms(2) assms(3)])
  show ?thesis
    by (simp add: getSecret_def runKubectlOrExit_def assms(1) Let_def r)
qed

text \<open>
  Claim C9, as amended. Without the decode flag, a request that holds a key \<open>k0\<close> which the
  fetched secret stores with the empty string as its encoded value is rejected:
  \<open>getSecret\<close> throws \<open>ExitError(1)\<close> after writing to standard error the line
  \<open>Error: Key "k" not found in secret "name".\<close> for the first requested key \<open>k\<close> that is
  absent or has an empty value, and writes nothing to standard output. The key named is
  \<open>k0\<close> itself whenever every key requested before it is present with a non-empty value.
\<close>

theorem empty_value_rejected_first_failing_key_named:
  assumes "K (calls w) (namespaceArgs ns @ [''get'', ''secret'', secretName, ''-o'', getFormat]) =
             Spawned (Some 0) dump errs"
    and "k0 \<in> set keys"
    and "Map_get (new_Map (lineEntries False dump)) k0 = Some (Str [])"
  shows \<open>(\<exists>pre k post. keys = pre @ k # post
            \<and> (\<forall>k'\<in>set pre. truthy (Map_get (new_Map (lineEntries False dump)) k'))
            \<and> \<not> truthy (Map_get (new_Map (lineEntries False dump)) k)
            \<and> getSecret K ns secretName keys False q w =
                (Inl (ExitError 1),
                 w\<lparr>calls := calls w @
                      [namespaceArgs ns @ [''get'', ''secret'', secretName, ''-o'', getFormat]],
                   err := err w @
                      [''Error: Key "'' @ k @ ''" not found in secret "'' @ secretName @ ''".'' @ [nl]]\<rparr>))
       \<and> (\<forall>pre post. keys = pre @ k0 # post
              \<and> (\<forall>k'\<in>set pre. truthy (Map_get (new_Map (lineEntries False dump)) k')) \<longrightarrow>
            getSecret K ns secretName keys False q w =
              (Inl (ExitError 1),
               w\<lparr>calls := calls w @
                    [namespaceArgs ns @ [''get'', ''secret'', secretName, ''-o'', getFormat]],
                 err := err w @
                    [''Error: Key "'' @ k0 @ ''" not found in secret "'' @ secretName @ ''".'' @ [nl]]\<rparr>))\<close>
proof -
  let ?m = "new_Map (lineEntries False dump)"
  have f0: "\<not> truthy (Map_get ?m k0)" using assms(3) by simp
  then have ex: "\<exists>k\<in>set keys. \<not> truthy (Map_get ?m k)" using assms(2) by blast
  have "\<exists>pre k post. keys = pre @ k # post \<and> \<not> truthy (Map_get ?m k) \<and>
      (\<forall>k'\<in>set pre. \<not> \<not> truthy (Map_get ?m k'))"
    by (rule split_list_first_prop [OF ex])
  then obtain pre k post where s: "keys = pre @ k # post" "\<not> truthy (Map_get ?m k)"
    "\<forall>k'\<in>set pre. \<not> \<not> truthy (Map_get ?m k')"
    by blast
  have p: "\<forall>k'\<in>set pre. truthy (Map_get ?m k')" using s(3) by simp
  have a: "getSecret K ns secretName keys False q w =
      (Inl (ExitError 1),
       w\<lparr>calls := calls w @ [namespaceArgs ns @ [''get'', ''secret'', secretName, ''-o'', getFormat]],
         err := err w @ [keyNotFound k secretName]\<rparr>)"
    unfolding s(1) by (rule first_falsy_key_rejected [where K = K and w = w, OF assms(1) p s(2)])
  have b: "getSecret K ns secretName keys False q w =
      (Inl (ExitError 1),
       w\<lparr>calls := calls w @ [namespaceArgs ns @ [''get'', ''secret'', secretName, ''-o'', getFormat]],
         err := err w @ [keyNotFound k0 secretName]\<rparr>)"
    if "keys = pre' @ k0 # post'" "\<forall>k'\<in>set pre'. truthy (Map_get ?m k')" for pre' post'
    unfolding that(1) by (rule first_falsy_key_rejected [where K = K and w = w, OF assms(1) that(2) f0])
  show ?thesis
    using s(1) p s(2) a b unfolding keyNotFound_def by blast
qed

theorem empty_value_rejected_first_failing_key_named_witness:
  \<open>getSecret (\<lambda>_ _. Spawned (Some 0) (''bar:YQ=='' @ [nl] @ ''foo:'' @ [nl]) []) None ''s''
      [''bar'', ''foo''] False False \<lparr>calls = [], out = [], err = []\<rparr> =
    (Inl (ExitError 1),
     \<lparr>calls = [[''get'', ''secret'', ''s'', ''-o'', getFormat]], out = [],
      err = [''Error: Key "foo" not found in secret "s".'' @ [nl]]\<rparr>)\<close>
proof -
  let ?dump = "''bar:YQ=='' @ [nl] @ ''foo:'' @ [nl]"
  let ?K = "\<lambda>(_ :: string list list) (_ :: string list). Spawned (Some 0) ?dump []"
  let ?w = "\<lparr>calls = [], out = [], err = []\<rparr>"
  have m: "new_Map (lineEntries False ?dump) = [(''bar'', Str ''YQ==''), (''foo'', Str [])]"
    by (simp add: new_Map_def lineEntries_def allLines_def lineEntry_def substring_def Let_def)
  have k: "?K (calls ?w) (namespaceArgs None @ [''get'', ''secret'', ''s'', ''-o'', getFormat]) =
           Spawned (Some 0) ?dump []"
    by simp
  have mem: "''foo'' \<in> set [''bar'', ''foo'']" by simp
  have h: "Map_get (new_Map (lineEntries False ?dump)) ''foo'' = Some (Str [])"
    unfolding m by simp
  have pre: "[''bar'', ''foo''] = [''bar''] @ ''foo'' # [] \<and>
      (\<forall>k'\<in>set [''bar'']. truthy (Map_get (new_Map (lineEntries False ?dump)) k'))"
    unfolding m by simp
  from empty_value_rejected_first_failing_key_named [OF k mem h, where q = False]
  have \<open>\<forall>pre post. [''bar'', ''foo''] = pre @ ''foo'' # post
          \<and> (\<forall>k'\<in>set pre. truthy (Map_get (new_Map (lineEntries False ?dump)) k')) \<longrightarrow>
        getSecret ?K None ''s'' [''bar'', ''foo''] False False ?w =
          (Inl (ExitError 1),
           ?w\<lparr>calls := calls ?w @ [namespaceArgs None @ [''get'', ''secret'', ''s'', ''-o'', getFormat]],
             err := err ?w @ [''Error: Key "'' @ ''foo'' @ ''" not found in secret "'' @ ''s'' @ ''".'' @ [nl]]\<rparr>)\<close>
    by (rule conjunct2)
  then have \<open>getSecret ?K None ''s'' [''bar'', ''foo''] False False ?w =
          (Inl (ExitError 1),
           ?w\<lparr>calls := calls ?w @ [namespaceArgs None @ [''get'', ''secret'', ''s'', ''-o'', getFormat]],
             err := err ?w @ [''Error: Key "'' @ ''foo'' @ ''" not found in secret "'' @ ''s'' @ ''".'' @ [nl]]\<rparr>)\<close>
    using pre by blast
  then show ?thesis by (simp add: namespaceArgs_def)
qed

text \<open>
  Claim C9 as stated fails when a key requested earlier is absent: with the keys \<open>zzz\<close>,
  \<open>foo\<close> and the secret holding only \<open>foo\<close>, with an empty value, the message names
  \<open>zzz\<close>, not \<open>foo\<close>.
\<close>

theorem empty_value_key_not_named_counterexample:
  \<open>Map_get (new_Map (lineEntries False (''foo:'' @ [nl]))) ''foo'' = Some (Str [])
   \<and> getSecret (\<lambda>_ _. Spawned (Some 0) (''foo:'' @ [nl]) []) None ''s'' [''zzz'', ''foo''] False False
        \<lparr>calls = [], out = [], err = []\<rparr> =
      (Inl (ExitError 1),
       \<lparr>calls = [[''get'', ''secret'', ''s'', ''-o'', getFormat]], out = [],
        err = [''Error: Key "zzz" not found in secret "s".'' @ [nl]]\<rparr>)
   \<and> ''Error: Key "zzz" not found in secret "s".'' @ [nl] \<noteq>
       ''Error: Key "foo" not found in secret "s".'' @ [nl]\<close>
  by (simp add: getSecret_def runKubectlOrExit_def namespaceArgs_def new_Map_def lineEntries_def
        allLines_def lineEntry_def substring_def keyNotFound_def Let_def)

text \<open>
  Claim C3, evaluated on the code. The secret holds the single key \<open>foo\<close> with an empty
  value and no key is requested: instead of printing all entries, \<open>getSecret\<close> reports that
  \<open>foo\<close> is not found and throws \<open>ExitError(1)\<close>. With the decode flag the same call prints
  the entry.
\<close>

theorem getSecret_all_keys_empty_value:
  "Map_get (new_Map (lineEntries False (''foo:'' @ [nl]))) ''foo'' = Some (Str [])
   \<and> getSecret (\<lambda>_ _. Spawned (Some 0) (''foo:'' @ [nl]) []) None ''s'' [] False False
        \<lparr>calls = [], out = [], err = []\<rparr> =
      (Inl (ExitError 1),
       \<lparr>calls = [[''get'', ''secret'', ''s'', ''-o'', getFormat]], out = [],
        err = [keyNotFound ''foo'' ''s'']\<rparr>)
   \<and> getSecret (\<lambda>_ _. Spawned (Some 0) (''foo:'' @ [nl]) []) None ''s'' [] True False
        \<lparr>calls = [], out = [], err = []\<rparr> =
      (Inr (),
       \<lparr>calls = [[''get'', ''secret'', ''s'', ''-o'', getFormat]],
        out = [''All keys from s -'' @ [nl], ''foo: '', [], [nl]], err = []\<rparr>)"
  by (simp add: getSecret_def runKubectlOrExit_def namespaceArgs_def new_Map_def lineEntries_def
        allLines_def lineEntry_def substring_def base64_decode_def low_bytes_def Let_def)

section \<open>Properties of \<open>set\<close> and \<open>create\<close>\<close>

lemma createSecret_no_keys:
  assumes "K (calls w) (namespaceArgs ns @ [''create'', ''secret'', ''generic'', secretName]) =
             Spawned (Some 0) stdout stderr"
  shows "createSecret K ns secretName [] encodeValues chunks w =
           (Resolved, None,
            w\<lparr>calls := calls w @ [namespaceArgs ns @ [''create'', ''secret'', ''generic'', secretName]]\<rparr>)"
  by (simp add: createSecret_def runKubectlOrExit_def assms Let_def)

text \<open>
  Claim C7, as amended. When the credential check and the create invocation succeed, the
  command \<open>create\<close> with no key ends normally after exactly two invocations of the external
  tool, \<open>version\<close> and then the create; it issues no patch, creates no prompt (whatever
  the input holds, none of it is read), and writes nothing.
\<close>

theorem create_without_keys:
  assumes "command a = ''create''" and "key a = []"
    and "K (calls w) [''version''] = Spawned (Some 0) stdout1 stderr1"
    and "K (calls w @ [[''version'']])
           (namespaceArgs (namespace a) @ [''create'', ''secret'', ''generic'', name a]) =
         Spawned (Some 0) stdout2 stderr2"
  shows "main K a chunks w =
           (Finished, None,
            w\<lparr>calls := calls w @
               [[''version''],
                namespaceArgs (namespace a) @ [''create'', ''secret'', ''generic'', name a]]\<rparr>)"
proof -
  have v: "runKubectlOrExit K [''version''] (Some versionHint) w =
             (Inr stdout1, w\<lparr>calls := calls w @ [[''version'']]\<rparr>)"
    by (simp add: runKubectlOrExit_def assms(3) Let_def)
  have c: "createSecret K (namespace a) (name a) [] (encoded a) chunks (w\<lparr>calls := calls w @ [[''version'']]\<rparr>) =
             (Resolved, None,
              w\<lparr>calls := calls w @ [[''version''],
                namespaceArgs (namespace a) @ [''create'', ''secret'', ''generic'', name a]]\<rparr>)"
    using createSecret_no_keys [of K "w\<lparr>calls := calls w @ [[''version'']]\<rparr>" "namespace a" "name a"]
      assms(4) by simp
  show ?thesis
    by (simp add: main_def v assms(1,2) c)
qed

theorem create_without_keys_witness:
  "main (\<lambda>_ _. Spawned (Some 0) [] [])
     \<lparr>command = ''create'', namespace = None, name = ''s'', key = [], decode = False,
      quiet = False, encoded = False\<rparr> [[''ignored'']] \<lparr>calls = [], out = [], err = []\<rparr> =
   (Finished, None,
    \<lparr>calls = [[''version''], [''create'', ''secret'', ''generic'', ''s'']], out = [], err = []\<rparr>)"
  using create_without_keys [of
      "\<lparr>command = ''create'', namespace = None, name = ''s'', key = [], decode = False,
        quiet = False, encoded = False\<rparr>"
      "\<lambda>_ _. Spawned (Some 0) [] []" "\<lparr>calls = [], out = [], err = []\<rparr>" "[]" "[]" "[]" "[]"
      "[[''ignored'']]"]
  by (simp add: namespaceArgs_def)

text \<open>
  Claim C7 as stated fails end to end: with an external tool that always succeeds, the
  dispatch invokes it twice, for \<open>version\<close> and for the create.
\<close>

theorem create_without_keys_two_invocations:
  "length (calls (snd (snd (main (\<lambda>_ _. Spawned (Some 0) [] [])
     \<lparr>command = ''create'', namespace = None, name = ''s'', key = [], decode = False,
      quiet = False, encoded = False\<rparr> [] \<lparr>calls = [], out = [], err = []\<rparr>)))) \<noteq> 1
   \<and> calls (snd (snd (main (\<lambda>_ _. Spawned (Some 0) [] [])
     \<lparr>command = ''create'', namespace = None, name = ''s'', key = [], decode = False,
      quiet = False, encoded = False\<rparr> [] \<lparr>calls = [], out = [], err = []\<rparr>))) =
     [[''version''], [''create'', ''secret'', ''generic'', ''s'']]"
  by (simp add: main_def createSecret_def runKubectlOrExit_def namespaceArgs_def Let_def)

lemma settled_ok_deliver: "settled_ok s \<Longrightarrow> settled_ok (deliver ls s)"
  by (induction ls arbitrary: s) (simp_all add: deliver_def settled_ok_handleLine)

lemma deliver_Cons: "deliver (l # ls) s = deliver ls (handleLine l s)"
  by (simp add: deliver_def)

lemma deliver_to_waiter:
  assumes "settled_ok s" "resolve s = Some p"
  shows "promises (deliver (l # ls) s) p = Some (Fulfilled l)
       \<and> resolve (deliver (l # ls) s) = None
       \<and> linesQueue (deliver (l # ls) s) = ls"
proof -
  have h: "resolve (handleLine l s) = None" "linesQueue (handleLine l s) = []"
    "promises (handleLine l s) p = Some (Fulfilled l)"
    using assms by (auto simp: settled_ok_def handleLine_def settle_def)
  show ?thesis
    unfolding deliver_Cons using h by (simp add: deliver_queue)
qed

lemma awaitLine_spec:
  assumes "settled_ok s" "resolve s = Some p"
  shows "(concat chunks = [] \<longrightarrow> fst (awaitLine p chunks s) = None)
       \<and> (\<forall>l rest. concat chunks = l # rest \<longrightarrow>
            (\<exists>chunks' s'. awaitLine p chunks s = (Some (Fulfilled l), chunks', s')
               \<and> settled_ok s' \<and> resolve s' = None \<and> linesQueue s' @ concat chunks' = rest))"
  using assms
proof (induction chunks arbitrary: s)
  case Nil
  show ?case by simp
next
  case (Cons chunk chunks)
  show ?case
  proof (cases chunk)
    case Nil
    have "promises s p = None" using Cons.prems by (simp add: settled_ok_def)
    then have "awaitLine p (chunk # chunks) s = awaitLine p chunks s"
      using Nil by (simp add: deliver_def)
    then show ?thesis using Cons.IH [OF Cons.prems] Nil by simp
  next
    case (Cons l ls)
    have d: "promises (deliver (l # ls) s) p = Some (Fulfilled l)"
      "resolve (deliver (l # ls) s) = None" "linesQueue (deliver (l # ls) s) = ls"
      using deliver_to_waiter [OF Cons.prems] by simp_all
    have ok: "settled_ok (deliver (l # ls) s)"
      by (rule settled_ok_deliver [OF Cons.prems(1)])
    have "awaitLine p (chunk # chunks) s = (Some (Fulfilled l), chunks, deliver (l # ls) s)"
      using Cons d by simp
    then show ?thesis using Cons d ok by simp
  qed
qed

lemma nextLine_spec:
  assumes "settled_ok s" "resolve s = None"
  shows "(linesQueue s @ concat chunks = [] \<longrightarrow> fst (nextLine q chunks s) = None)
       \<and> (\<forall>l rest. linesQueue s @ concat chunks = l # rest \<longrightarrow>
            (\<exists>chunks' s'. nextLine q chunks s = (Some (Fulfilled l), chunks', s')
               \<and> settled_ok s' \<and> resolve s' = None \<and> linesQueue s' @ concat chunks' = rest))"
proof (cases "linesQueue s")
  case Nil
  obtain p s1 where g: "getNextLine q s = (p, s1)" by (cases "getNextLine q s")
  have s1: "settled_ok s1" using settled_ok_getNextLine [OF assms(1), of q] g by simp
  have r: "resolve s1 = Some p" "promises s1 p = None"
    using g Nil assms by (auto simp: getNextLine_def Let_def settled_ok_def)
  have n: "nextLine q chunks s = awaitLine p chunks s1"
    using g r by (simp add: nextLine_def)
  show ?thesis unfolding n using awaitLine_spec [OF s1 r(1), of chunks] Nil by simp
next
  case (Cons l rest)
  obtain p s1 where g: "getNextLine q s = (p, s1)" by (cases "getNextLine q s")
  have s1: "settled_ok s1" using settled_ok_getNextLine [OF assms(1), of q] g by simp
  have r: "resolve s1 = None" "promises s1 p = Some (Fulfilled l)" "linesQueue s1 = rest"
    using g Cons assms by (auto simp: getNextLine_def Let_def settled_ok_def settle_def)
  have n: "nextLine q chunks s = (Some (Fulfilled l), chunks, s1)"
    using g r by (simp add: nextLine_def)
  show ?thesis unfolding n using Cons s1 r by simp
qed

lemma readValues_spec:
  assumes "settled_ok s" "resolve s = None"
    and "length keys \<le> length (linesQueue s @ concat chunks)"
  shows "\<exists>s'. readValues skipEncode keys pairs chunks s =
           (Done (pairs @ zip keys (linesQueue s @ concat chunks)), s')"
  using assms
proof (induction keys arbitrary: pairs chunks s)
  case Nil
  show ?case by simp
next
  case (Cons k keys)
  obtain l rest where lr: "linesQueue s @ concat chunks = l # rest"
    using Cons.prems(3) by (cases "linesQueue s @ concat chunks") auto
  obtain chunks' s' where n: "nextLine (query skipEncode k) chunks s = (Some (Fulfilled l), chunks', s')"
    "settled_ok s'" "resolve s' = None" "linesQueue s' @ concat chunks' = rest"
    using nextLine_spec [OF Cons.prems(1,2), of chunks "query skipEncode k"] lr by blast
  have len: "length keys \<le> length (linesQueue s' @ concat chunks')"
    using Cons.prems(3) lr n(4) by simp
  obtain s'' where "readValues skipEncode keys (pairs @ [(k, l)]) chunks' s' =
      (Done ((pairs @ [(k, l)]) @ zip keys (linesQueue s' @ concat chunks')), s'')"
    using Cons.IH [OF n(2) n(3) len] by blast
  then show ?case using n(1,4) lr by simp
qed

lemma readValues_new:
  assumes "length keys \<le> length (concat chunks)"
  shows "\<exists>s'. readValues skipEncode keys [] chunks newBetterPrompt =
           (Done (zip keys (concat chunks)), s')"
  using readValues_spec [of newBetterPrompt keys chunks skipEncode "[]"] assms
  by (simp add: settled_ok_new) (simp add: newBetterPrompt_def)

lemma payload_a_b:
  \<open>JSON_stringify_secret (secretData False [(''a'', ''1''), (''b'', ''2'')]) =
     ''{"data":{"a":"MQ==","b":"Mg=="}}''\<close>
  by (simp add: JSON_stringify_secret_def secretData_def obj_assign_def own_properties_def
        is_array_index_def is_digit_def JSON_quote_def JSON_escape_def base64_encode_def
        b64char_def Let_def char_of_eq_iff)

text \<open>
  Claim C2. \<open>setSecret\<close> on the keys \<open>a\<close>, \<open>b\<close> with encoding enabled, when the input
  delivers the lines \<open>1\<close> and \<open>2\<close> (in whatever chunks), issues exactly one invocation of the
  external tool: the patch whose payload is \<open>{"data":{"a":"MQ==","b":"Mg=="}}\<close>. Its promise
  settles and the prompt is closed.
\<close>

theorem set_two_keys_patch_payload:
  assumes "concat chunks = [''1'', ''2'']"
  shows \<open>calls (snd (snd (setSecret K ns secretName [''a'', ''b''] False chunks w))) =
           calls w @ [namespaceArgs ns @
             [''patch'', ''secret'', secretName, ''-p'', ''{"data":{"a":"MQ==","b":"Mg=="}}'']]
         \<and> fst (setSecret K ns secretName [''a'', ''b''] False chunks w) \<noteq> Pending
         \<and> (\<exists>prompt. fst (snd (setSecret K ns secretName [''a'', ''b''] False chunks w)) = Some prompt
              \<and> closed prompt)\<close>
proof -
  obtain s' where r: "readValues False [''a'', ''b''] [] chunks newBetterPrompt =
      (Done (zip [''a'', ''b''] (concat chunks)), s')"
    using readValues_new [of "[''a'', ''b'']" chunks False] assms by auto
  have z: "zip [''a'', ''b''] (concat chunks) = [(''a'', ''1''), (''b'', ''2'')]"
    by (simp add: assms)
  show ?thesis
    by (simp add: setSecret_def r z payload_a_b runKubectlOrExit_def Let_def close_def
          del: readValues.simps split: spawn_result.split)
qed

theorem set_two_keys_patch_payload_witness:
  \<open>concat [[''1''], [], [''2'']] = [''1'', ''2''] \<and>
   calls (snd (snd (setSecret (\<lambda>_ _. Spawned (Some 0) [] []) None ''s'' [''a'', ''b''] False
      [[''1''], [], [''2'']] \<lparr>calls = [], out = [], err = []\<rparr>))) =
     [[''patch'', ''secret'', ''s'', ''-p'', ''{"data":{"a":"MQ==","b":"Mg=="}}'']]\<close>
proof -
  have h: "concat [[''1''], [], [''2'']] = [''1'', ''2'']" by simp
  show ?thesis
    using h set_two_keys_patch_payload [OF h, of "\<lambda>_ _. Spawned (Some 0) [] []" None "''s''"
      "\<lparr>calls = [], out = [], err = []\<rparr>"]
    by (simp add: namespaceArgs_def)
qed

end
